theory Spec2Isabelle
  imports Main "HOL-Library.Sublist"
begin

section \<open>JavaScript strings\<close>

text \<open>
  A string is its sequence of UTF-16 code units, each a natural number. Text the script
  itself writes (\<^verbatim>\<open>' Poster'\<close>, \<^verbatim>\<open>'undefined'\<close>) is ASCII; \<open>ascii\<close> gives its code units.
\<close>

type_synonym ustring = "nat list"

definition ascii :: "string \<Rightarrow> ustring" where
  "ascii s = map of_char s"

text \<open>
  \<^verbatim>\<open>String.prototype.trim\<close> strips, at both ends, the white space and line terminators
  of ECMAScript: tab, line feed, vertical tab, form feed, carriage return, space,
  no-break space, U+1680, U+2000 to U+200A, U+2028, U+2029, U+202F, U+205F, U+3000 and
  U+FEFF.
\<close>

definition isWhiteSpace :: "nat \<Rightarrow> bool" where
  "isWhiteSpace c =
     (c \<in> {9, 10, 11, 12, 13, 32, 160, 5760, 8232, 8233, 8239, 8287, 12288, 65279} \<or>
      (8192 \<le> c \<and> c \<le> 8202))"

definition trim :: "ustring \<Rightarrow> ustring" where
  "trim s = rev (dropWhile isWhiteSpace (rev (dropWhile isWhiteSpace s)))"

text \<open>
  \<^verbatim>\<open>s.includes(t)\<close>: \<open>t\<close> occurs in \<open>s\<close> as a contiguous run of code units, found by
  trying every start position from the left.
\<close>

fun startsWith :: "ustring \<Rightarrow> ustring \<Rightarrow> bool" where
  "startsWith s [] = True"
| "startsWith [] (y # ys) = False"
| "startsWith (x # xs) (y # ys) = (x = y \<and> startsWith xs ys)"

fun str_includes :: "ustring \<Rightarrow> ustring \<Rightarrow> bool" where
  "str_includes [] t = (t = [])"
| "str_includes (x # xs) t = (startsWith (x # xs) t \<or> str_includes xs t)"

text \<open>
  \<^verbatim>\<open>String.prototype.toLowerCase\<close> is a function of the platform that follows the
  Unicode case tables. The script is modelled for every such function: the operations
  that lower-case take it as their first argument, of type \<open>lowercase\<close>.
\<close>

type_synonym lowercase = "ustring \<Rightarrow> ustring"

text \<open>
  Surrogates. The iterator of a string yields code points, a pair of a high and a low
  surrogate as one string of two units and any other unit by itself. A URL attribute
  stores a string of scalar values: an unpaired surrogate is replaced by U+FFFD.
\<close>

definition high_surrogate :: "nat \<Rightarrow> bool" where
  "high_surrogate c = (55296 \<le> c \<and> c \<le> 56319)"

definition low_surrogate :: "nat \<Rightarrow> bool" where
  "low_surrogate c = (56320 \<le> c \<and> c \<le> 57343)"

fun code_points :: "ustring \<Rightarrow> ustring list" where
  "code_points [] = []"
| "code_points [c] = [[c]]"
| "code_points (c # d # rest) =
     (if high_surrogate c \<and> low_surrogate d then [c, d] # code_points rest
      else [c] # code_points (d # rest))"

fun to_USVString :: "ustring \<Rightarrow> ustring" where
  "to_USVString [] = []"
| "to_USVString [c] = (if high_surrogate c \<or> low_surrogate c then [65533] else [c])"
| "to_USVString (c # d # rest) =
     (if high_surrogate c \<and> low_surrogate d then c # d # to_USVString rest
      else if high_surrogate c \<or> low_surrogate c then 65533 # to_USVString (d # rest)
      else c # to_USVString (d # rest))"

section \<open>An excerpt of the Unicode case tables\<close>

text \<open>
  For evaluating examples: lower-casing as \<^verbatim>\<open>toLowerCase\<close> does it on Basic Latin,
  Latin-1, the Greek letters alpha to omega and the dotted capital I. \<open>simple_lower\<close>
  is the one-to-one mapping of the character table for these letters. Two capitals are
  not mapped one to one: the dotted capital I (U+0130) becomes two units, and the capital
  sigma (U+03A3)
  becomes the final sigma (U+03C2) when a cased letter comes before it and none after
  it, skipping case-ignorable characters on both sides, and the small sigma (U+03C3)
  otherwise. Units outside the excerpt are left as they are; the examples use none.
\<close>

definition simple_lower :: "nat \<Rightarrow> nat" where
  "simple_lower c =
     (if (65 \<le> c \<and> c \<le> 90) \<or> (192 \<le> c \<and> c \<le> 222 \<and> c \<noteq> 215) \<or>
         (913 \<le> c \<and> c \<le> 937 \<and> c \<noteq> 930)
      then c + 32 else c)"

definition cased :: "nat \<Rightarrow> bool" where
  "cased c =
     ((65 \<le> c \<and> c \<le> 90) \<or> (97 \<le> c \<and> c \<le> 122) \<or> c \<in> {170, 181, 186} \<or>
      (192 \<le> c \<and> c \<le> 255 \<and> c \<noteq> 215 \<and> c \<noteq> 247) \<or>
      (913 \<le> c \<and> c \<le> 937 \<and> c \<noteq> 930) \<or> (945 \<le> c \<and> c \<le> 969))"

definition case_ignorable :: "nat \<Rightarrow> bool" where
  "case_ignorable c = (c \<in> {39, 46, 58, 94, 96, 168, 173, 175, 180, 183, 184})"

definition final_sigma :: "ustring \<Rightarrow> ustring \<Rightarrow> bool" where
  "final_sigma before after =
     ((case dropWhile case_ignorable before of [] \<Rightarrow> False | c # _ \<Rightarrow> cased c) \<and>
      \<not> (case dropWhile case_ignorable after of [] \<Rightarrow> False | c # _ \<Rightarrow> cased c))"

text \<open>\<open>lower_from before s\<close> lower-cases \<open>s\<close>, where \<open>before\<close> holds the units already
  passed, the nearest first.\<close>

fun lower_from :: "ustring \<Rightarrow> ustring \<Rightarrow> ustring" where
  "lower_from before [] = []"
| "lower_from before (c # rest) =
     (if c = 931 then [if final_sigma before rest then 962 else 963]
      else if c = 304 then [105, 775]
      else [simple_lower c]) @ lower_from (c # before) rest"

definition toLowerCase_excerpt :: lowercase where
  "toLowerCase_excerpt s = lower_from [] s"

section \<open>Data model\<close>

text \<open>
  The script never calculates with a number of the payload, it only writes it as text.
  A JSON number is therefore held as the text \<^verbatim>\<open>Number::toString\<close> gives for it: the
  shortest decimal that reads back as the same double (\<^verbatim>\<open>8\<close> for 8.0, \<^verbatim>\<open>8.25\<close>,
  \<^verbatim>\<open>1e+21\<close>).
\<close>

datatype num = Num (num_text: ustring)

datatype prim = PNull | PBool bool | PNum num | PStr ustring

text \<open>
  A JSON object, by the fields the script reads: \<open>None\<close> is a field the object lacks,
  which JavaScript reads as \<^verbatim>\<open>undefined\<close>. The model covers objects whose fields hold
  primitives of any kind; an object or array as the value of a field is outside it.
\<close>

record movie =
  movie_id :: "prim option"
  title :: "prim option"
  year :: "prim option"
  genre :: "prim option"
  rating :: "prim option"
  description :: "prim option"
  poster :: "prim option"

definition no_fields :: movie where
  "no_fields =
     \<lparr>movie_id = None, title = None, year = None, genre = None, rating = None,
      description = None, poster = None\<rparr>"

text \<open>
  An element of an array is a primitive (null included) or an object. The parsed payload,
  which \<^verbatim>\<open>this.movies\<close> holds before anything looks at it, is an array of elements or a
  single primitive or object. An array inside an array is outside the model.
\<close>

datatype element = Prim prim | Object movie

datatype payload = Single element | Array "element list"

datatype js_error = TypeError | SyntaxError | HttpError nat

text \<open>A statement either completes or throws; the state reached comes with both.\<close>

datatype 'a completion = Normal 'a | Throw js_error 'a

fun state_of :: "'a completion \<Rightarrow> 'a" where
  "state_of (Normal s) = s"
| "state_of (Throw e s) = s"

text \<open>What the awaited \<^verbatim>\<open>fetch\<close> and \<^verbatim>\<open>response.json()\<close> deliver.\<close>

datatype response_body = InvalidJson | Json payload

datatype fetch_result = NetworkError | Response nat response_body

definition response_ok :: "nat \<Rightarrow> bool" where
  "response_ok status = (200 \<le> status \<and> status \<le> 299)"

text \<open>A rendered card keeps what its listeners close over: the fields of its movie, and
  its index.\<close>

record card =
  card_movie :: movie
  card_index :: nat

text \<open>Timers of the page: \<^verbatim>\<open>setTimeout\<close> callbacks waiting for their due time.\<close>

datatype callback = SearchCallback ustring | FocusCallback

record timer =
  handle :: nat
  due :: nat
  callback :: callback

text \<open>
  The state the script reads and writes: the fields of \<^verbatim>\<open>MovieApp\<close>, the inline
  styles and contents of the elements it holds, the error console, and the timers and
  clock (in milliseconds) of the page. The input focus is not part of it.
\<close>

record app =
  movies :: payload
  filteredMovies :: "element list"
  isLoading :: bool
  searchTimeout :: "nat option"
  loadingState_display :: string
  errorState_display :: string
  noResultsState_display :: string
  moviesContainer_display :: string
  moviesContainer_children :: "card list"
  movieModal_display :: string
  body_overflow :: string
  modalPoster_src :: ustring
  modalPoster_alt :: ustring
  modalTitle_text :: ustring
  modalYear_text :: ustring
  modalRating_text :: ustring
  modalGenre_text :: ustring
  modalDescription_text :: ustring
  console :: "js_error list"
  clock :: nat
  timers :: "timer list"
  lastHandle :: nat

section \<open>The view states\<close>

definition hideAllStates :: "app \<Rightarrow> app" where
  "hideAllStates s =
     s\<lparr>loadingState_display := ''none'',
       errorState_display := ''none'',
       noResultsState_display := ''none'',
       moviesContainer_display := ''none''\<rparr>"

definition showLoading :: "app \<Rightarrow> app" where
  "showLoading s = (hideAllStates (s\<lparr>isLoading := True\<rparr>))\<lparr>loadingState_display := ''block''\<rparr>"

definition hideLoading :: "app \<Rightarrow> app" where
  "hideLoading s = s\<lparr>isLoading := False, loadingState_display := ''none''\<rparr>"

definition showError :: "app \<Rightarrow> app" where
  "showError s = (hideAllStates s)\<lparr>errorState_display := ''block''\<rparr>"

definition showNoResults :: "app \<Rightarrow> app" where
  "showNoResults s = (hideAllStates s)\<lparr>noResultsState_display := ''block''\<rparr>"

text \<open>Reading a property of an element: on null the read throws; a primitive other than
  null has none of the fields of an item.\<close>

fun fields_of :: "element \<Rightarrow> js_error + movie" where
  "fields_of (Prim PNull) = Inl TypeError"
| "fields_of (Prim p) = Inr no_fields"
| "fields_of (Object m) = Inr m"

text \<open>\<^verbatim>\<open>createMovieCard\<close> reads title, poster, rating and year of the movie into the
  markup of the card; converting a primitive or \<^verbatim>\<open>undefined\<close> to text cannot fail, so
  the only throw is the first read on a null movie.\<close>

definition createMovieCard :: "element \<Rightarrow> nat \<Rightarrow> js_error + card" where
  "createMovieCard el index =
     (case fields_of el of
        Inl e \<Rightarrow> Inl e
      | Inr m \<Rightarrow> Inr \<lparr>card_movie = m, card_index = index\<rparr>)"

text \<open>The \<^verbatim>\<open>forEach\<close> of \<^verbatim>\<open>renderMovies\<close>: one card after the other is created and
  appended; a throw ends the loop with the cards appended so far.\<close>

fun append_cards :: "(nat \<times> element) list \<Rightarrow> app \<Rightarrow> app completion" where
  "append_cards [] s = Normal s"
| "append_cards ((index, el) # rest) s =
     (case createMovieCard el index of
        Inl e \<Rightarrow> Throw e s
      | Inr c \<Rightarrow> append_cards rest (s\<lparr>moviesContainer_children := moviesContainer_children s @ [c]\<rparr>))"

definition renderMovies :: "app \<Rightarrow> app completion" where
  "renderMovies s =
     (if length (filteredMovies s) = 0 then Normal (showNoResults s)
      else append_cards (enumerate 0 (filteredMovies s))
             ((hideAllStates s)\<lparr>moviesContainer_display := ''grid'', moviesContainer_children := []\<rparr>))"

section \<open>Searching\<close>

text \<open>\<^verbatim>\<open>[...this.movies]\<close>: a fresh array of the elements of an array, or of the code
  points of a string; any other value is not iterable.\<close>

fun spread :: "payload \<Rightarrow> js_error + element list" where
  "spread (Array xs) = Inr xs"
| "spread (Single (Prim (PStr t))) = Inr (map (\<lambda>cp. Prim (PStr cp)) (code_points t))"
| "spread (Single el) = Inl TypeError"

text \<open>The callback of the filter, \<^verbatim>\<open>movie.title.toLowerCase().includes(searchTerm)\<close>:
  it throws on a null movie and on a title that is not a string.\<close>

definition title_matches :: "lowercase \<Rightarrow> ustring \<Rightarrow> element \<Rightarrow> js_error + bool" where
  "title_matches toLowerCase searchTerm el =
     (case fields_of el of
        Inl e \<Rightarrow> Inl e
      | Inr m \<Rightarrow>
          (case title m of
             Some (PStr t) \<Rightarrow> Inr (str_includes (toLowerCase t) searchTerm)
           | _ \<Rightarrow> Inl TypeError))"

text \<open>\<^verbatim>\<open>Array.prototype.filter\<close> with a callback that may throw: elements are visited
  from the left and kept in order; the first throw ends the call.\<close>

fun array_filter :: "('a \<Rightarrow> js_error + bool) \<Rightarrow> 'a list \<Rightarrow> js_error + 'a list" where
  "array_filter p [] = Inr []"
| "array_filter p (x # xs) =
     (case p x of
        Inl e \<Rightarrow> Inl e
      | Inr b \<Rightarrow>
          (case array_filter p xs of
             Inl e \<Rightarrow> Inl e
           | Inr ys \<Rightarrow> Inr (if b then x # ys else ys)))"

text \<open>Only an array has a \<^verbatim>\<open>filter\<close> method. A throw of the spread or of the filter
  comes before the assignment to \<^verbatim>\<open>this.filteredMovies\<close>; a throw of the rendering
  comes after it.\<close>

definition searchMovies :: "lowercase \<Rightarrow> ustring \<Rightarrow> app \<Rightarrow> app completion" where
  "searchMovies toLowerCase query s =
     (let searchTerm = trim (toLowerCase query)
      in if searchTerm = []
         then (case spread (movies s) of
                 Inl e \<Rightarrow> Throw e s
               | Inr xs \<Rightarrow> renderMovies (s\<lparr>filteredMovies := xs\<rparr>))
         else (case movies s of
                 Single el \<Rightarrow> Throw TypeError s
               | Array xs \<Rightarrow>
                   (case array_filter (title_matches toLowerCase searchTerm) xs of
                      Inl e \<Rightarrow> Throw e s
                    | Inr ys \<Rightarrow> renderMovies (s\<lparr>filteredMovies := ys\<rparr>))))"

section \<open>Timers and the debounced search\<close>

text \<open>\<^verbatim>\<open>setTimeout\<close> hands out a new positive handle; \<^verbatim>\<open>clearTimeout\<close> drops the timer
  with the given handle, if it is still waiting.\<close>

definition setTimeout :: "callback \<Rightarrow> nat \<Rightarrow> app \<Rightarrow> nat \<times> app" where
  "setTimeout cb delay s =
     (let h = Suc (lastHandle s)
      in (h, s\<lparr>lastHandle := h,
                timers := timers s @ [\<lparr>handle = h, due = clock s + delay, callback = cb\<rparr>]\<rparr>))"

definition clearTimeout :: "nat \<Rightarrow> app \<Rightarrow> app" where
  "clearTimeout h s = s\<lparr>timers := filter (\<lambda>t. handle t \<noteq> h) (timers s)\<rparr>"

definition handleSearch :: "ustring \<Rightarrow> app \<Rightarrow> app" where
  "handleSearch query s =
     (let s1 = (case searchTimeout s of
                  Some h \<Rightarrow> if h \<noteq> 0 then clearTimeout h s else s
                | None \<Rightarrow> s);
          (h, s2) = setTimeout (SearchCallback query) 300 s1
      in s2\<lparr>searchTimeout := Some h\<rparr>)"

section \<open>The overlay\<close>

text \<open>
  What the DOM stores for an assigned value. In a template literal and for a string
  attribute the value is converted by \<^verbatim>\<open>ToString\<close>; \<^verbatim>\<open>src\<close> is a URL attribute and
  stores scalar values; \<^verbatim>\<open>textContent\<close> takes null and \<^verbatim>\<open>undefined\<close> as the empty
  text.
\<close>

fun toString :: "prim option \<Rightarrow> ustring" where
  "toString None = ascii ''undefined''"
| "toString (Some PNull) = ascii ''null''"
| "toString (Some (PBool b)) = (if b then ascii ''true'' else ascii ''false'')"
| "toString (Some (PNum n)) = num_text n"
| "toString (Some (PStr t)) = t"

fun textContent_of :: "prim option \<Rightarrow> ustring" where
  "textContent_of None = []"
| "textContent_of (Some PNull) = []"
| "textContent_of v = toString v"

definition openModal :: "movie \<Rightarrow> app \<Rightarrow> app" where
  "openModal m s =
     (let s1 = s\<lparr>modalPoster_src := to_USVString (toString (poster m)),
                 modalPoster_alt := toString (title m) @ ascii '' Poster'',
                 modalTitle_text := textContent_of (title m),
                 modalYear_text := textContent_of (year m),
                 modalRating_text := textContent_of (rating m),
                 modalGenre_text := textContent_of (genre m),
                 modalDescription_text := textContent_of (description m),
                 movieModal_display := ''block'',
                 body_overflow := ''hidden''\<rparr>
      in snd (setTimeout FocusCallback 100 s1))"

definition closeModal :: "app \<Rightarrow> app" where
  "closeModal s = s\<lparr>movieModal_display := ''none'', body_overflow := ''auto''\<rparr>"

definition isModalOpen :: "app \<Rightarrow> bool" where
  "isModalOpen s = (movieModal_display s = ''block'')"

section \<open>Loading\<close>

text \<open>
  \<^verbatim>\<open>loadMovies\<close> runs up to its first \<^verbatim>\<open>await\<close>, and is resumed when the fetch
  settles. \<open>loadMovies_begin\<close> is the part before the \<^verbatim>\<open>await\<close>; \<open>loadMovies_try\<close>
  is the rest of the \<^verbatim>\<open>try\<close> block, given what the fetch delivered;
  \<open>loadMovies_resume\<close> adds the \<^verbatim>\<open>catch\<close>. Between the two awaits the method
  touches no state, so one resumption stands for both.
\<close>

definition loadMovies_begin :: "app \<Rightarrow> app" where
  "loadMovies_begin s = showLoading s"

definition loadMovies_try :: "fetch_result \<Rightarrow> app \<Rightarrow> app completion" where
  "loadMovies_try r s =
     (case r of
        NetworkError \<Rightarrow> Throw TypeError s
      | Response status body \<Rightarrow>
          if \<not> response_ok status then Throw (HttpError status) s
          else (case body of
                  InvalidJson \<Rightarrow> Throw SyntaxError s
                | Json data \<Rightarrow>
                    (let s1 = s\<lparr>movies := data\<rparr>
                     in case spread (movies s1) of
                          Inl e \<Rightarrow> Throw e s1
                        | Inr xs \<Rightarrow> renderMovies (hideLoading (s1\<lparr>filteredMovies := xs\<rparr>)))))"

definition loadMovies_resume :: "fetch_result \<Rightarrow> app \<Rightarrow> app" where
  "loadMovies_resume r s =
     (case loadMovies_try r s of
        Normal s' \<Rightarrow> s'
      | Throw e s' \<Rightarrow> showError (s'\<lparr>console := console s' @ [e]\<rparr>))"

section \<open>The page: construction and events\<close>

definition constructor :: "app \<Rightarrow> app" where
  "constructor page =
     page\<lparr>movies := Array [], filteredMovies := [], isLoading := False, searchTimeout := None\<rparr>"

text \<open>\<^verbatim>\<open>init\<close> binds the listeners (the cases of \<open>step\<close> below) and starts the first load.\<close>

definition init :: "app \<Rightarrow> app" where
  "init s = loadMovies_begin s"

definition startup :: "app \<Rightarrow> app" where
  "startup page = init (constructor page)"

text \<open>A timer callback runs to its end or to an uncaught throw; the page goes on with
  the state reached either way. The callback set by \<^verbatim>\<open>openModal\<close> only moves the
  input focus.\<close>

fun fire :: "lowercase \<Rightarrow> callback \<Rightarrow> app \<Rightarrow> app" where
  "fire toLowerCase (SearchCallback query) s = state_of (searchMovies toLowerCase query s)"
| "fire toLowerCase FocusCallback s = s"

text \<open>
  Letting \<open>ms\<close> milliseconds pass runs the callbacks of the timers that fall due, earliest
  first, and removes those timers. No callback of this script sets or clears a timer.
  The callbacks run are returned beside the new state.
\<close>

definition advance :: "lowercase \<Rightarrow> nat \<Rightarrow> app \<Rightarrow> callback list \<times> app" where
  "advance toLowerCase ms s =
     (let now = clock s + ms;
          ready = map callback (sort_key due (filter (\<lambda>t. due t \<le> now) (timers s)));
          s1 = s\<lparr>clock := now, timers := filter (\<lambda>t. now < due t) (timers s)\<rparr>
      in (ready, fold (fire toLowerCase) ready s1))"

datatype event =
    Input ustring
  | Elapse nat
  | RetryClick
  | FetchSettled fetch_result
  | CardActivated nat
  | CloseClick
  | BackdropClick
  | EscapeKey

text \<open>One event of the page: the listener bound in \<^verbatim>\<open>bindEvents\<close> or
  \<^verbatim>\<open>createMovieCard\<close> runs, or time passes, or a pending fetch settles.\<close>

fun step :: "lowercase \<Rightarrow> event \<Rightarrow> app \<Rightarrow> callback list \<times> app" where
  "step toLowerCase (Input query) s = ([], handleSearch query s)"
| "step toLowerCase (Elapse ms) s = advance toLowerCase ms s"
| "step toLowerCase RetryClick s = ([], loadMovies_begin s)"
| "step toLowerCase (FetchSettled r) s = ([], loadMovies_resume r s)"
| "step toLowerCase (CardActivated i) s =
     ([], if i < length (moviesContainer_children s)
          then openModal (card_movie (moviesContainer_children s ! i)) s else s)"
| "step toLowerCase CloseClick s = ([], closeModal s)"
| "step toLowerCase BackdropClick s = ([], closeModal s)"
| "step toLowerCase EscapeKey s = ([], if isModalOpen s then closeModal s else s)"

fun run :: "lowercase \<Rightarrow> event list \<Rightarrow> app \<Rightarrow> callback list \<times> app" where
  "run toLowerCase [] s = ([], s)"
| "run toLowerCase (e # es) s =
     (let (fired, s1) = step toLowerCase e s; (fired', s2) = run toLowerCase es s1
      in (fired @ fired', s2))"

text \<open>A page whose elements carry no inline style yet and no timer, at time 0.\<close>

definition blank_page :: app where
  "blank_page =
     \<lparr>movies = Array [], filteredMovies = [], isLoading = False, searchTimeout = None,
      loadingState_display = [], errorState_display = [], noResultsState_display = [],
      moviesContainer_display = [], moviesContainer_children = [],
      movieModal_display = [], body_overflow = [],
      modalPoster_src = [], modalPoster_alt = [], modalTitle_text = [], modalYear_text = [],
      modalRating_text = [], modalGenre_text = [], modalDescription_text = [],
      console = [], clock = 0, timers = [], lastHandle = 0\<rparr>"

section \<open>Reading the state\<close>

text \<open>
  The view state a page shows: \<open>Some v\<close> when the region of \<open>v\<close> is displayed and the
  three other regions are hidden, \<open>None\<close> in every other case (no region displayed,
  several displayed, or a display value the script never writes).
\<close>

datatype view = Loading | Error | Empty | Populated

definition view_of :: "app \<Rightarrow> view option" where
  "view_of s =
     (let l = loadingState_display s; e = errorState_display s;
          n = noResultsState_display s; c = moviesContainer_display s
      in if l = ''block'' \<and> e = ''none'' \<and> n = ''none'' \<and> c = ''none'' then Some Loading
         else if l = ''none'' \<and> e = ''block'' \<and> n = ''none'' \<and> c = ''none'' then Some Error
         else if l = ''none'' \<and> e = ''none'' \<and> n = ''block'' \<and> c = ''none'' then Some Empty
         else if l = ''none'' \<and> e = ''none'' \<and> n = ''none'' \<and> c = ''grid'' then Some Populated
         else None)"

text \<open>The title of an element that is an object with a string as its title.\<close>

fun title_text :: "element \<Rightarrow> ustring" where
  "title_text (Object m) = (case title m of Some (PStr t) \<Rightarrow> t | _ \<Rightarrow> [])"
| "title_text (Prim p) = []"

fun has_title :: "element \<Rightarrow> bool" where
  "has_title (Object m) = (case title m of Some (PStr t) \<Rightarrow> True | _ \<Rightarrow> False)"
| "has_title (Prim p) = False"






text \<open>Calls of the two overlay methods, in sequence.\<close>

datatype modal_call = Open movie | Close

fun modal_calls :: "modal_call list \<Rightarrow> app \<Rightarrow> app" where
  "modal_calls [] s = s"
| "modal_calls (Open m # cs) s = modal_calls cs (openModal m s)"
| "modal_calls (Close # cs) s = modal_calls cs (closeModal s)"

section \<open>The words of the specification\<close>

text \<open>
  The filter. The query is trimmed and case-folded; an empty result selects everything;
  otherwise an item is selected when some stretch of its title, as long as the
  normalized query, equals it up to case. Case is folded unit by unit, by a mapping
  \<open>casefold\<close> of the character table.
\<close>

definition normalize_query :: "(nat \<Rightarrow> nat) \<Rightarrow> ustring \<Rightarrow> ustring" where
  "normalize_query casefold q = map casefold (trim q)"

definition equal_ignoring_case :: "(nat \<Rightarrow> nat) \<Rightarrow> ustring \<Rightarrow> ustring \<Rightarrow> bool" where
  "equal_ignoring_case casefold a b = (map casefold a = map casefold b)"

definition contains_ignoring_case :: "(nat \<Rightarrow> nat) \<Rightarrow> ustring \<Rightarrow> ustring \<Rightarrow> bool" where
  "contains_ignoring_case casefold t q =
     (\<exists>i \<in> {..length t}. equal_ignoring_case casefold (take (length q) (drop i t)) q)"

definition spec_filter :: "(nat \<Rightarrow> nat) \<Rightarrow> ustring \<Rightarrow> element list \<Rightarrow> element list" where
  "spec_filter casefold q xs =
     (let nq = normalize_query casefold q
      in if nq = [] then xs
         else filter (\<lambda>el. contains_ignoring_case casefold (title_text el) nq) xs)"

text \<open>A valid item sequence, after the data model: an array of objects that carry every
  field of an item with a value of its type, no identifier used twice.\<close>

fun is_number :: "prim option \<Rightarrow> bool" where
  "is_number (Some (PNum n)) = True"
| "is_number v = False"

fun is_string :: "prim option \<Rightarrow> bool" where
  "is_string (Some (PStr t)) = True"
| "is_string v = False"

fun valid_item :: "element \<Rightarrow> bool" where
  "valid_item (Object m) =
     (is_number (movie_id m) \<and> is_string (title m) \<and> is_number (year m) \<and>
      is_string (genre m) \<and> is_number (rating m) \<and> is_string (description m) \<and>
      is_string (poster m))"
| "valid_item (Prim p) = False"

fun id_of :: "element \<Rightarrow> prim option" where
  "id_of (Object m) = movie_id m"
| "id_of (Prim p) = None"

fun valid_item_sequence :: "payload \<Rightarrow> bool" where
  "valid_item_sequence (Array xs) = (list_all valid_item xs \<and> distinct (map id_of xs))"
| "valid_item_sequence (Single el) = False"

text \<open>A number formatted to one decimal place: an optional minus sign, one or more
  digits, a point and one digit.\<close>

definition is_digit :: "nat \<Rightarrow> bool" where
  "is_digit c = (48 \<le> c \<and> c \<le> 57)"

definition one_decimal_format :: "ustring \<Rightarrow> bool" where
  "one_decimal_format t =
     (case rev (case t of c # r \<Rightarrow> if c = 45 then r else t | [] \<Rightarrow> t) of
        d # p # ds \<Rightarrow> is_digit d \<and> p = 46 \<and> ds \<noteq> [] \<and> list_all is_digit ds
      | _ \<Rightarrow> False)"

section \<open>Sample data\<close>

definition the_dark_knight :: movie where
  "the_dark_knight =
     \<lparr>movie_id = Some (PNum (Num (ascii ''1''))),
      title = Some (PStr (ascii ''The Dark Knight'')),
      year = Some (PNum (Num (ascii ''2008''))),
      genre = Some (PStr (ascii ''Action, Crime, Drama'')),
      rating = Some (PNum (Num (ascii ''9''))),
      description = Some (PStr (ascii ''Batman faces the Joker.'')),
      poster = Some (PStr (ascii ''dark-knight.jpg''))\<rparr>"

definition inception :: movie where
  "inception =
     \<lparr>movie_id = Some (PNum (Num (ascii ''2''))),
      title = Some (PStr (ascii ''Inception'')),
      year = Some (PNum (Num (ascii ''2010''))),
      genre = Some (PStr (ascii ''Action, Sci-Fi'')),
      rating = Some (PNum (Num (ascii ''8.8''))),
      description = Some (PStr (ascii ''A thief enters dreams.'')),
      poster = Some (PStr (ascii ''inception.jpg''))\<rparr>"

text \<open>An item rated with a whole number.\<close>

definition whole_rated :: movie where
  "whole_rated = the_dark_knight\<lparr>rating := Some (PNum (Num (ascii ''8'')))\<rparr>"



text \<open>The page after its first load has delivered the given elements.\<close>

definition page_with :: "element list \<Rightarrow> app" where
  "page_with xs = loadMovies_resume (Response 200 (Json (Array xs))) (startup blank_page)"

definition loaded_page :: app where
  "loaded_page = page_with [Object the_dark_knight, Object inception]"

section \<open>Verified properties\<close>

subsection \<open>Unfolding\<close>

lemmas view_defs =
  hideAllStates_def showLoading_def hideLoading_def showError_def showNoResults_def

lemmas load_defs = loadMovies_begin_def loadMovies_try_def loadMovies_resume_def response_ok_def

subsection \<open>What rendering changes\<close>

lemma append_cards_frame:
  "\<exists>cs. state_of (append_cards ps s) = s\<lparr>moviesContainer_children := cs\<rparr>"
proof (induction ps arbitrary: s)
  case Nil
  have "s = s\<lparr>moviesContainer_children := moviesContainer_children s\<rparr>" by simp
  then show ?case by (metis append_cards.simps(1) state_of.simps(1))
next
  case (Cons p ps)
  obtain index el where p: "p = (index, el)" by (cases p)
  show ?case
  proof (cases "createMovieCard el index")
    case (Inl e)
    have "s = s\<lparr>moviesContainer_children := moviesContainer_children s\<rparr>" by simp
    with Inl p show ?thesis by (metis append_cards.simps(2) old.sum.simps(5) state_of.simps(2))
  next
    case (Inr c)
    let ?s1 = "s\<lparr>moviesContainer_children := moviesContainer_children s @ [c]\<rparr>"
    from Cons.IH [of ?s1] obtain cs where
      "state_of (append_cards ps ?s1) = ?s1\<lparr>moviesContainer_children := cs\<rparr>" by blast
    then have "state_of (append_cards (p # ps) s) = s\<lparr>moviesContainer_children := cs\<rparr>"
      using Inr p by simp
    then show ?thesis by blast
  qed
qed

lemma renderMovies_frame:
  "\<exists>l e n c cs. state_of (renderMovies s) =
     s\<lparr>loadingState_display := l, errorState_display := e, noResultsState_display := n,
       moviesContainer_display := c, moviesContainer_children := cs\<rparr>"
proof (cases "filteredMovies s = []")
  case True
  have "state_of (renderMovies s) =
     s\<lparr>loadingState_display := ''none'', errorState_display := ''none'',
       noResultsState_display := ''block'', moviesContainer_display := ''none'',
       moviesContainer_children := moviesContainer_children s\<rparr>"
    using True by (simp add: renderMovies_def view_defs)
  then show ?thesis by blast
next
  case False
  let ?s1 = "(hideAllStates s)\<lparr>moviesContainer_display := ''grid'', moviesContainer_children := []\<rparr>"
  from append_cards_frame [of "enumerate 0 (filteredMovies s)" ?s1] obtain cs where
    "state_of (append_cards (enumerate 0 (filteredMovies s)) ?s1) = ?s1\<lparr>moviesContainer_children := cs\<rparr>"
    by blast
  with False have "state_of (renderMovies s) =
     s\<lparr>loadingState_display := ''none'', errorState_display := ''none'',
       noResultsState_display := ''none'', moviesContainer_display := ''grid'',
       moviesContainer_children := cs\<rparr>"
    by (simp add: renderMovies_def view_defs)
  then show ?thesis by blast
qed

lemma renderMovies_keeps [simp]:
  "movies (state_of (renderMovies s)) = movies s"
  "filteredMovies (state_of (renderMovies s)) = filteredMovies s"
  "isLoading (state_of (renderMovies s)) = isLoading s"
  "searchTimeout (state_of (renderMovies s)) = searchTimeout s"
  "console (state_of (renderMovies s)) = console s"
  "clock (state_of (renderMovies s)) = clock s"
  "timers (state_of (renderMovies s)) = timers s"
  "lastHandle (state_of (renderMovies s)) = lastHandle s"
  "movieModal_display (state_of (renderMovies s)) = movieModal_display s"
  "body_overflow (state_of (renderMovies s)) = body_overflow s"
proof -
  from renderMovies_frame [of s] obtain l e n c cs where
    f: "state_of (renderMovies s) =
     s\<lparr>loadingState_display := l, errorState_display := e, noResultsState_display := n,
       moviesContainer_display := c, moviesContainer_children := cs\<rparr>" by blast
  show "movies (state_of (renderMovies s)) = movies s"
    "filteredMovies (state_of (renderMovies s)) = filteredMovies s"
    "isLoading (state_of (renderMovies s)) = isLoading s"
    "searchTimeout (state_of (renderMovies s)) = searchTimeout s"
    "console (state_of (renderMovies s)) = console s"
    "clock (state_of (renderMovies s)) = clock s"
    "timers (state_of (renderMovies s)) = timers s"
    "lastHandle (state_of (renderMovies s)) = lastHandle s"
    "movieModal_display (state_of (renderMovies s)) = movieModal_display s"
    "body_overflow (state_of (renderMovies s)) = body_overflow s"
    by (simp_all add: f)
qed

lemma view_of_children: "view_of (s\<lparr>moviesContainer_children := cs\<rparr>) = view_of s"
  by (simp add: view_of_def)

lemma view_of_renderMovies:
  "view_of (state_of (renderMovies s)) = Some (if filteredMovies s = [] then Empty else Populated)"
proof (cases "filteredMovies s = []")
  case True
  then show ?thesis by (simp add: renderMovies_def view_of_def view_defs)
next
  case False
  let ?s1 = "(hideAllStates s)\<lparr>moviesContainer_display := ''grid'', moviesContainer_children := []\<rparr>"
  from append_cards_frame [of "enumerate 0 (filteredMovies s)" ?s1] obtain cs where
    "state_of (append_cards (enumerate 0 (filteredMovies s)) ?s1) = ?s1\<lparr>moviesContainer_children := cs\<rparr>"
    by blast
  with False have "view_of (state_of (renderMovies s)) = view_of ?s1"
    by (simp add: renderMovies_def view_of_children)
  also have "\<dots> = Some Populated" by (simp add: view_of_def view_defs)
  finally show ?thesis using False by simp
qed

lemma append_cards_normal:
  "Prim PNull \<notin> snd ` set ps \<Longrightarrow> \<exists>t. append_cards ps s = Normal t"
proof (induction ps arbitrary: s)
  case Nil
  then show ?case by simp
next
  case (Cons p ps)
  obtain index el where p: "p = (index, el)" by (cases p)
  with Cons.prems have "el \<noteq> Prim PNull" by auto
  then obtain c where c: "createMovieCard el index = Inr c"
    by (cases el rule: fields_of.cases) (simp_all add: createMovieCard_def)
  from Cons.prems have "Prim PNull \<notin> snd ` set ps" by auto
  from Cons.IH [OF this] c p show ?case by simp
qed

lemma append_cards_throw:
  "Prim PNull \<in> snd ` set ps \<Longrightarrow> \<exists>t. append_cards ps s = Throw TypeError t"
proof (induction ps arbitrary: s)
  case Nil
  then show ?case by simp
next
  case (Cons p ps)
  obtain index el where p: "p = (index, el)" by (cases p)
  show ?case
  proof (cases "el = Prim PNull")
    case True
    with p show ?thesis by (simp add: createMovieCard_def)
  next
    case False
    then obtain c where c: "createMovieCard el index = Inr c"
      by (cases el rule: fields_of.cases) (simp_all add: createMovieCard_def)
    from Cons.prems False p have "Prim PNull \<in> snd ` set ps" by auto
    from Cons.IH [OF this] c p show ?thesis by simp
  qed
qed

lemma snd_enumerate: "snd ` set (enumerate n xs) = set xs"
  by (metis list.set_map map_snd_enumerate)

lemma renderMovies_normal:
  "Prim PNull \<notin> set (filteredMovies s) \<Longrightarrow> \<exists>t. renderMovies s = Normal t"
  using append_cards_normal [of "enumerate 0 (filteredMovies s)"]
  by (simp add: renderMovies_def snd_enumerate)

lemma renderMovies_throw:
  "Prim PNull \<in> set (filteredMovies s) \<Longrightarrow> \<exists>t. renderMovies s = Throw TypeError t"
proof -
  assume n: "Prim PNull \<in> set (filteredMovies s)"
  then have "filteredMovies s \<noteq> []" by auto
  with n append_cards_throw [of "enumerate 0 (filteredMovies s)"] show ?thesis
    by (simp add: renderMovies_def snd_enumerate)
qed

subsection \<open>Searching returns the matching items in order\<close>






lemma has_title_cases:
  "has_title el \<Longrightarrow> \<exists>m t. el = Object m \<and> title m = Some (PStr t) \<and> title_text el = t"
  by (cases el rule: has_title.cases) (auto split: option.splits prim.splits)

lemma array_filter_titles:
  "\<forall>el \<in> set xs. has_title el \<Longrightarrow>
   array_filter (title_matches toLowerCase searchTerm) xs =
     Inr (filter (\<lambda>el. str_includes (toLowerCase (title_text el)) searchTerm) xs)"
proof (induction xs)
  case Nil
  then show ?case by simp
next
  case (Cons el xs)
  from Cons.prems have "has_title el" by simp
  then obtain m t where "el = Object m" "title m = Some (PStr t)" "title_text el = t"
    using has_title_cases by blast
  then have "title_matches toLowerCase searchTerm el =
      Inr (str_includes (toLowerCase (title_text el)) searchTerm)"
    by (simp add: title_matches_def)
  with Cons show ?case by simp
qed

lemma titled_no_null: "\<forall>el \<in> set xs. has_title el \<Longrightarrow> Prim PNull \<notin> set xs"
  by auto

lemma includes_empty: "str_includes t []"
  by (cases t) simp_all

lemma search_titled:
  assumes coll: "movies s = Array xs" and titled: "\<forall>el \<in> set xs. has_title el"
  shows "\<exists>s'. searchMovies toLowerCase q s = Normal s' \<and>
          filteredMovies s' =
            filter (\<lambda>el. str_includes (toLowerCase (title_text el)) (trim (toLowerCase q))) xs \<and>
          movies s' = Array xs \<and>
          view_of s' =
            Some (if filter (\<lambda>el. str_includes (toLowerCase (title_text el)) (trim (toLowerCase q))) xs = []
                  then Empty else Populated)"
proof -
  let ?sought = "trim (toLowerCase q)"
  let ?ys = "filter (\<lambda>el. str_includes (toLowerCase (title_text el)) ?sought) xs"
  let ?s1 = "s\<lparr>filteredMovies := ?ys\<rparr>"
  have all: "?sought = [] \<Longrightarrow> ?ys = xs" by (simp add: includes_empty)
  have run: "searchMovies toLowerCase q s = renderMovies ?s1"
  proof (cases "?sought = []")
    case True
    with coll all show ?thesis by (simp add: searchMovies_def)
  next
    case False
    with coll array_filter_titles [OF titled, of toLowerCase ?sought] show ?thesis
      by (simp add: searchMovies_def)
  qed
  have "Prim PNull \<notin> set (filteredMovies ?s1)"
    using titled_no_null [OF titled] by simp
  then obtain s' where s': "renderMovies ?s1 = Normal s'"
    using renderMovies_normal by blast
  then have st: "s' = state_of (renderMovies ?s1)" by simp
  have "filteredMovies s' = ?ys" "movies s' = Array xs"
    unfolding st using coll by simp_all
  moreover have "view_of s' = Some (if ?ys = [] then Empty else Populated)"
    unfolding st by (simp add: view_of_renderMovies)
  ultimately show ?thesis using run s' by simp
qed





subsection \<open>What a settled fetch leaves on the page\<close>

lemma renderMovies_completion:
  "renderMovies s =
     (if Prim PNull \<in> set (filteredMovies s) then Throw TypeError (state_of (renderMovies s))
      else Normal (state_of (renderMovies s)))"
proof (cases "Prim PNull \<in> set (filteredMovies s)")
  case True
  then obtain t where "renderMovies s = Throw TypeError t" using renderMovies_throw by blast
  with True show ?thesis by simp
next
  case False
  then obtain t where "renderMovies s = Normal t" using renderMovies_normal by blast
  with False show ?thesis by simp
qed

lemma resume_network:
  "loadMovies_resume NetworkError s = showError (s\<lparr>console := console s @ [TypeError]\<rparr>)"
  by (simp add: loadMovies_resume_def loadMovies_try_def)

lemma resume_bad_status:
  "\<not> response_ok st \<Longrightarrow>
   loadMovies_resume (Response st b) s = showError (s\<lparr>console := console s @ [HttpError st]\<rparr>)"
  by (simp add: loadMovies_resume_def loadMovies_try_def)

lemma resume_invalid_json:
  "response_ok st \<Longrightarrow>
   loadMovies_resume (Response st InvalidJson) s =
     showError (s\<lparr>console := console s @ [SyntaxError]\<rparr>)"
  by (simp add: loadMovies_resume_def loadMovies_try_def)

lemma resume_not_iterable:
  "response_ok st \<Longrightarrow> spread data = Inl e \<Longrightarrow>
   loadMovies_resume (Response st (Json data)) s =
     showError (s\<lparr>movies := data, console := console s @ [e]\<rparr>)"
  by (simp add: loadMovies_resume_def loadMovies_try_def)

lemma resume_spread:
  assumes "response_ok st" and "spread data = Inr xs"
  shows "loadMovies_resume (Response st (Json data)) s =
     (if Prim PNull \<in> set xs
      then showError
             ((state_of (renderMovies (hideLoading (s\<lparr>movies := data, filteredMovies := xs\<rparr>))))
                \<lparr>console := console s @ [TypeError]\<rparr>)
      else state_of (renderMovies (hideLoading (s\<lparr>movies := data, filteredMovies := xs\<rparr>))))"
proof -
  let ?t = "hideLoading (s\<lparr>movies := data, filteredMovies := xs\<rparr>)"
  have f: "filteredMovies ?t = xs" and c: "console ?t = console s"
    by (simp_all add: hideLoading_def)
  show ?thesis
  proof (cases "Prim PNull \<in> set xs")
    case True
    with f obtain t' where th: "renderMovies ?t = Throw TypeError t'"
      using renderMovies_throw [of ?t] by auto
    have "console (state_of (renderMovies ?t)) = console ?t" by simp
    with th c have "console t' = console s" by simp
    with assms True th show ?thesis
      by (simp add: loadMovies_resume_def loadMovies_try_def)
  next
    case False
    with f obtain t' where th: "renderMovies ?t = Normal t'"
      using renderMovies_normal [of ?t] by auto
    with assms False show ?thesis
      by (simp add: loadMovies_resume_def loadMovies_try_def)
  qed
qed

lemma spread_cases: "(\<exists>xs. spread data = Inr xs) \<or> spread data = Inl TypeError"
  by (cases data rule: spread.cases) simp_all

lemma showError_keeps [simp]:
  "movies (showError s) = movies s" "filteredMovies (showError s) = filteredMovies s"
  "isLoading (showError s) = isLoading s" "console (showError s) = console s"
  "timers (showError s) = timers s" "lastHandle (showError s) = lastHandle s"
  "searchTimeout (showError s) = searchTimeout s" "clock (showError s) = clock s"
  by (simp_all add: view_defs)

lemma view_of_showLoading: "view_of (showLoading s) = Some Loading"
  by (simp add: view_of_def showLoading_def hideAllStates_def)

lemma view_of_showError: "view_of (showError s) = Some Error"
  by (simp add: view_of_def showError_def hideAllStates_def)

lemma view_of_showNoResults: "view_of (showNoResults s) = Some Empty"
  by (simp add: view_of_def showNoResults_def hideAllStates_def)

lemma resume_array_fields:
  assumes "response_ok st"
  shows "movies (loadMovies_resume (Response st (Json (Array xs))) s) = Array xs"
    and "filteredMovies (loadMovies_resume (Response st (Json (Array xs))) s) = xs"
    and "isLoading (loadMovies_resume (Response st (Json (Array xs))) s) = False"
    and "console (loadMovies_resume (Response st (Json (Array xs))) s) =
           (if Prim PNull \<in> set xs then console s @ [TypeError] else console s)"
    and "view_of (loadMovies_resume (Response st (Json (Array xs))) s) =
           Some (if xs = [] then Empty else if Prim PNull \<in> set xs then Error else Populated)"
proof -
  have sp: "spread (Array xs) = Inr xs" by simp
  note r = resume_spread [OF assms sp, of s]
  show "movies (loadMovies_resume (Response st (Json (Array xs))) s) = Array xs"
    by (simp add: r hideLoading_def)
  show "filteredMovies (loadMovies_resume (Response st (Json (Array xs))) s) = xs"
    by (simp add: r hideLoading_def)
  show "isLoading (loadMovies_resume (Response st (Json (Array xs))) s) = False"
    by (simp add: r hideLoading_def)
  show "console (loadMovies_resume (Response st (Json (Array xs))) s) =
           (if Prim PNull \<in> set xs then console s @ [TypeError] else console s)"
    by (simp add: r hideLoading_def)
  show "view_of (loadMovies_resume (Response st (Json (Array xs))) s) =
           Some (if xs = [] then Empty else if Prim PNull \<in> set xs then Error else Populated)"
    by (auto simp: r view_of_showError view_of_renderMovies hideLoading_def)
qed

lemma response_ok_200: "response_ok 200"
  by (simp add: response_ok_def)

lemma page_with_fields:
  "movies (page_with xs) = Array xs" "filteredMovies (page_with xs) = xs"
  "view_of (page_with xs) =
     Some (if xs = [] then Empty else if Prim PNull \<in> set xs then Error else Populated)"
  unfolding page_with_def by (simp_all add: resume_array_fields [OF response_ok_200])



subsection \<open>One view state at a time\<close>

lemma view_of_handleSearch: "view_of (handleSearch q s) = view_of s"
  by (simp add: view_of_def handleSearch_def setTimeout_def clearTimeout_def Let_def
      split: option.splits)

lemma view_of_openModal: "view_of (openModal m s) = view_of s"
  by (simp add: view_of_def openModal_def setTimeout_def Let_def)

lemma view_of_closeModal: "view_of (closeModal s) = view_of s"
  by (simp add: view_of_def closeModal_def)

lemma searchMovies_cases:
  "(\<exists>ys. searchMovies toLowerCase q s = renderMovies (s\<lparr>filteredMovies := ys\<rparr>)) \<or>
   (\<exists>e. searchMovies toLowerCase q s = Throw e s)"
  by (auto simp: searchMovies_def Let_def split: sum.splits payload.splits)

lemma view_of_fire: "view_of s \<noteq> None \<Longrightarrow> view_of (fire toLowerCase cb s) \<noteq> None"
proof (cases cb)
  case (SearchCallback q)
  assume v: "view_of s \<noteq> None"
  from searchMovies_cases [of toLowerCase q s] show ?thesis
  proof
    assume "\<exists>ys. searchMovies toLowerCase q s = renderMovies (s\<lparr>filteredMovies := ys\<rparr>)"
    with SearchCallback show ?thesis by (auto simp: view_of_renderMovies)
  next
    assume "\<exists>e. searchMovies toLowerCase q s = Throw e s"
    with SearchCallback v show ?thesis by auto
  qed
next
  case FocusCallback
  assume "view_of s \<noteq> None"
  with FocusCallback show ?thesis by simp
qed

lemma view_of_fold_fire:
  "view_of s \<noteq> None \<Longrightarrow> view_of (fold (fire toLowerCase) cbs s) \<noteq> None"
proof (induction cbs arbitrary: s)
  case Nil
  then show ?case by simp
next
  case (Cons cb cbs)
  from Cons.prems have "view_of (fire toLowerCase cb s) \<noteq> None" by (rule view_of_fire)
  then have "view_of (fold (fire toLowerCase) cbs (fire toLowerCase cb s)) \<noteq> None"
    by (rule Cons.IH)
  then show ?case by simp
qed

lemma view_of_advance:
  "view_of s \<noteq> None \<Longrightarrow> view_of (snd (advance toLowerCase ms s)) \<noteq> None"
proof -
  assume v: "view_of s \<noteq> None"
  let ?now = "clock s + ms"
  have "view_of (s\<lparr>clock := ?now, timers := filter (\<lambda>t. ?now < due t) (timers s)\<rparr>) = view_of s"
    by (simp add: view_of_def)
  with v show ?thesis
    by (simp add: advance_def Let_def view_of_fold_fire)
qed

lemma view_of_loadMovies_resume: "view_of (loadMovies_resume r s) \<noteq> None"
proof (cases r)
  case NetworkError
  then show ?thesis by (simp add: resume_network view_of_showError)
next
  case (Response st b)
  show ?thesis
  proof (cases "response_ok st")
    case False
    with Response show ?thesis by (simp add: resume_bad_status view_of_showError)
  next
    case True
    show ?thesis
    proof (cases b)
      case InvalidJson
      with Response True show ?thesis by (simp add: resume_invalid_json view_of_showError)
    next
      case (Json data)
      from spread_cases [of data] show ?thesis
      proof
        assume "\<exists>xs. spread data = Inr xs"
        then obtain xs where "spread data = Inr xs" by blast
        with Response True Json show ?thesis
          by (simp add: resume_spread view_of_showError view_of_renderMovies)
      next
        assume "spread data = Inl TypeError"
        with Response True Json show ?thesis
          by (simp add: resume_not_iterable view_of_showError)
      qed
    qed
  qed
qed

lemma view_of_step: "view_of s \<noteq> None \<Longrightarrow> view_of (snd (step toLowerCase e s)) \<noteq> None"
  by (cases e)
    (simp_all add: view_of_handleSearch view_of_advance view_of_showLoading loadMovies_begin_def
      view_of_loadMovies_resume view_of_openModal view_of_closeModal)

lemma view_of_run: "view_of s \<noteq> None \<Longrightarrow> view_of (snd (run toLowerCase evs s)) \<noteq> None"
proof (induction evs arbitrary: s)
  case Nil
  then show ?case by simp
next
  case (Cons e evs)
  from Cons.prems have "view_of (snd (step toLowerCase e s)) \<noteq> None" by (rule view_of_step)
  then have "view_of (snd (run toLowerCase evs (snd (step toLowerCase e s)))) \<noteq> None"
    by (rule Cons.IH)
  then show ?case by (simp add: split_beta)
qed

lemma view_of_startup: "view_of (startup page) = Some Loading"
  by (simp add: startup_def init_def loadMovies_begin_def view_of_showLoading)

text \<open>
  Claim C2. After startup and any sequence of events (typing, time passing, a retry, a
  fetch settling, opening and closing the overlay) the page shows exactly one of the
  four view states: its region is displayed and the three others are hidden. Each of
  the methods that enters a state hides all four regions first, so from any state
  whatever \<^verbatim>\<open>showLoading\<close>, \<^verbatim>\<open>showError\<close>, \<^verbatim>\<open>showNoResults\<close> and \<^verbatim>\<open>renderMovies\<close>
  (also when it throws on the way) leave their own region as the only one displayed.
\<close>

theorem one_view_state_active:
  "(\<exists>v. view_of (snd (run toLowerCase evs (startup page))) = Some v) \<and>
   view_of (showLoading s) = Some Loading \<and>
   view_of (showError s) = Some Error \<and>
   view_of (showNoResults s) = Some Empty \<and>
   view_of (state_of (renderMovies s)) = Some (if filteredMovies s = [] then Empty else Populated)"
proof -
  have "view_of (startup page) \<noteq> None" by (simp add: view_of_startup)
  then have "view_of (snd (run toLowerCase evs (startup page))) \<noteq> None" by (rule view_of_run)
  then have "\<exists>v. view_of (snd (run toLowerCase evs (startup page))) = Some v" by auto
  then show ?thesis
    by (simp add: view_of_showLoading view_of_showError view_of_showNoResults view_of_renderMovies)
qed

subsection \<open>What a load and a search leave on the page\<close>

lemma spec_filter_empty_query: "spec_filter casefold [] xs = xs"
  by (simp add: spec_filter_def normalize_query_def trim_def)

text \<open>
  Claim C6. When the fetch answers with a success status and a JSON array, the load
  stores the array as the full collection and a copy of it as the filtered view, which
  is what the filter gives for the empty query (show all), and ends the loading flag.
\<close>

theorem load_success_replaces_both:
  assumes ok: "response_ok st"
  shows "movies (loadMovies_resume (Response st (Json (Array xs))) s) = Array xs \<and>
         filteredMovies (loadMovies_resume (Response st (Json (Array xs))) s) = xs \<and>
         filteredMovies (loadMovies_resume (Response st (Json (Array xs))) s) =
           spec_filter casefold [] xs \<and>
         isLoading (loadMovies_resume (Response st (Json (Array xs))) s) = False"
proof -
  note f = resume_array_fields [OF ok, of xs s]
  from f(1) f(2) f(3) show ?thesis
    by (simp add: spec_filter_empty_query)
qed

theorem load_success_replaces_both_witness:
  "movies loaded_page = Array [Object the_dark_knight, Object inception] \<and>
   filteredMovies loaded_page = [Object the_dark_knight, Object inception] \<and>
   isLoading loaded_page = False"
  using load_success_replaces_both [OF response_ok_200,
      of "[Object the_dark_knight, Object inception]" "startup blank_page"]
  by (simp add: loaded_page_def page_with_def)

text \<open>
  Claim C7. Rendering shows \<open>Empty\<close> when the filtered view has no item and
  \<open>Populated\<close> when it has one or more. A search over items with titles shows \<open>Empty\<close>
  when no title matches the query and \<open>Populated\<close> when one or more match. A
  successful load shows \<open>Empty\<close> for an empty array; for an array with elements it
  shows \<open>Populated\<close>, unless an element is null, where creating the card throws and the
  page shows \<open>Error\<close>.
\<close>

theorem empty_iff_no_items:
  "view_of (state_of (renderMovies s)) = Some (if filteredMovies s = [] then Empty else Populated) \<and>
   (movies s = Array xs \<and> (\<forall>el \<in> set xs. has_title el) \<longrightarrow>
      (\<exists>s'. searchMovies toLowerCase q s = Normal s' \<and>
            view_of s' =
              Some (if filter (\<lambda>el. str_includes (toLowerCase (title_text el)) (trim (toLowerCase q))) xs = []
                    then Empty else Populated))) \<and>
   (response_ok st \<longrightarrow>
      view_of (loadMovies_resume (Response st (Json (Array ys))) s) =
        Some (if ys = [] then Empty else if Prim PNull \<in> set ys then Error else Populated))"
proof -
  have search: "\<exists>s'. searchMovies toLowerCase q s = Normal s' \<and>
            view_of s' =
              Some (if filter (\<lambda>el. str_includes (toLowerCase (title_text el)) (trim (toLowerCase q))) xs = []
                    then Empty else Populated)"
    if "movies s = Array xs" and "\<forall>el \<in> set xs. has_title el"
    using search_titled [OF that, of toLowerCase q] by blast
  have load: "view_of (loadMovies_resume (Response st (Json (Array ys))) s) =
        Some (if ys = [] then Empty else if Prim PNull \<in> set ys then Error else Populated)"
    if "response_ok st"
    using that by (rule resume_array_fields(5))
  from search load show ?thesis
    by (simp add: view_of_renderMovies)
qed

lemma sample_titled: "\<forall>el \<in> set [Object the_dark_knight, Object inception]. has_title el"
  by (simp add: the_dark_knight_def inception_def)

lemma sample_lower:
  "toLowerCase_excerpt (ascii ''The Dark Knight'') = ascii ''the dark knight''"
  "toLowerCase_excerpt (ascii ''Inception'') = ascii ''inception''"
  "trim (toLowerCase_excerpt (ascii ''xyz-no-match'')) = ascii ''xyz-no-match''"
  "trim (toLowerCase_excerpt (ascii ''dark'')) = ascii ''dark''"
  by (simp_all add: ascii_def toLowerCase_excerpt_def simple_lower_def trim_def isWhiteSpace_def)

theorem empty_iff_no_items_witness:
  "(\<exists>s'. searchMovies toLowerCase_excerpt (ascii ''xyz-no-match'') loaded_page = Normal s' \<and>
         view_of s' = Some Empty) \<and>
   (\<exists>s'. searchMovies toLowerCase_excerpt (ascii ''dark'') loaded_page = Normal s' \<and>
         view_of s' = Some Populated) \<and>
   view_of loaded_page = Some Populated \<and>
   view_of (loadMovies_resume (Response 200 (Json (Array []))) loaded_page) = Some Empty"
proof -
  have coll: "movies loaded_page = Array [Object the_dark_knight, Object inception]"
    by (simp add: loaded_page_def page_with_fields)
  have none: "filter (\<lambda>el. str_includes (toLowerCase_excerpt (title_text el))
                 (trim (toLowerCase_excerpt (ascii ''xyz-no-match''))))
               [Object the_dark_knight, Object inception] = []"
    by (simp add: sample_lower the_dark_knight_def inception_def) (simp add: ascii_def)
  have some: "filter (\<lambda>el. str_includes (toLowerCase_excerpt (title_text el))
                 (trim (toLowerCase_excerpt (ascii ''dark''))))
               [Object the_dark_knight, Object inception] = [Object the_dark_knight]"
    by (simp add: sample_lower the_dark_knight_def inception_def) (simp add: ascii_def)
  have a: "\<exists>s'. searchMovies toLowerCase_excerpt (ascii ''xyz-no-match'') loaded_page = Normal s' \<and>
         view_of s' = Some Empty"
    using empty_iff_no_items [of loaded_page "[Object the_dark_knight, Object inception]"
        toLowerCase_excerpt "ascii ''xyz-no-match''" 200 "[]"] coll sample_titled none
    by simp
  have b: "\<exists>s'. searchMovies toLowerCase_excerpt (ascii ''dark'') loaded_page = Normal s' \<and>
         view_of s' = Some Populated"
    using empty_iff_no_items [of loaded_page "[Object the_dark_knight, Object inception]"
        toLowerCase_excerpt "ascii ''dark''" 200 "[]"] coll sample_titled some
    by simp
  have c: "view_of loaded_page = Some Populated"
    using empty_iff_no_items [of "startup blank_page" "[]" toLowerCase_excerpt "[]" 200
        "[Object the_dark_knight, Object inception]"]
    by (simp add: response_ok_200 loaded_page_def page_with_def)
  have d: "view_of (loadMovies_resume (Response 200 (Json (Array []))) loaded_page) = Some Empty"
    using empty_iff_no_items [of loaded_page "[]" toLowerCase_excerpt "[]" 200 "[]"]
    by (simp add: response_ok_200)
  from a b c d show ?thesis by simp
qed

subsection \<open>Failed loads and overlapping loads\<close>

lemma console_startup: "console (startup blank_page) = []"
  by (simp add: startup_def init_def loadMovies_begin_def constructor_def showLoading_def
      hideAllStates_def blank_page_def)

text \<open>
  Claim C3 says that a payload which is not a valid item sequence makes the load fail
  and the page show \<open>Error\<close>. It does not: a payload that parses to an array holding one
  object without any item field is not a valid item sequence, yet the load completes,
  nothing is logged and the page shows \<open>Populated\<close>.
\<close>

theorem unvalidated_payload_counterexample:
  "\<not> valid_item_sequence (Array [Object no_fields]) \<and>
   view_of (loadMovies_resume (Response 200 (Json (Array [Object no_fields]))) (startup blank_page)) =
     Some Populated \<and>
   console (loadMovies_resume (Response 200 (Json (Array [Object no_fields]))) (startup blank_page)) = []"
proof -
  have "\<not> valid_item_sequence (Array [Object no_fields])"
    by (simp add: no_fields_def)
  moreover have "view_of (loadMovies_resume (Response 200 (Json (Array [Object no_fields])))
      (startup blank_page)) = Some Populated"
    by (simp add: resume_array_fields [OF response_ok_200])
  moreover have "console (loadMovies_resume (Response 200 (Json (Array [Object no_fields])))
      (startup blank_page)) = []"
    by (simp add: resume_array_fields [OF response_ok_200] console_startup)
  ultimately show ?thesis by simp
qed

lemma resume_spread_fields:
  assumes "response_ok st" and "spread data = Inr xs"
  shows "view_of (loadMovies_resume (Response st (Json data)) s) =
           Some (if xs = [] then Empty else if Prim PNull \<in> set xs then Error else Populated)"
    and "console (loadMovies_resume (Response st (Json data)) s) =
           (if Prim PNull \<in> set xs then console s @ [TypeError] else console s)"
proof -
  note r = resume_spread [OF assms, of s]
  show "view_of (loadMovies_resume (Response st (Json data)) s) =
           Some (if xs = [] then Empty else if Prim PNull \<in> set xs then Error else Populated)"
    by (auto simp: r view_of_showError view_of_renderMovies hideLoading_def)
  show "console (loadMovies_resume (Response st (Json data)) s) =
           (if Prim PNull \<in> set xs then console s @ [TypeError] else console s)"
    by (simp add: r hideLoading_def)
qed

text \<open>
  Claim C3, amended. The load fails when the fetch rejects, when the status is not a
  success status, when the body is not JSON, when the parsed value cannot be spread,
  and when one of the spread elements is null. Every such failure is caught in
  \<^verbatim>\<open>loadMovies\<close>, logged, and shown as the \<open>Error\<close> view, from which a retry enters
  \<open>Loading\<close> again. The failures are handled alike, and a rejected fetch logs the same
  kind of error as a value that cannot be spread or a null element. Any other payload
  that can be spread is accepted as it is, with no check of its items, and nothing is
  logged.
\<close>

theorem load_failures_reach_error:
  "view_of (loadMovies_resume NetworkError s) = Some Error \<and>
   console (loadMovies_resume NetworkError s) = console s @ [TypeError] \<and>
   (\<not> response_ok st \<longrightarrow>
      view_of (loadMovies_resume (Response st body) s) = Some Error \<and>
      console (loadMovies_resume (Response st body) s) = console s @ [HttpError st]) \<and>
   (response_ok st \<longrightarrow>
      view_of (loadMovies_resume (Response st InvalidJson) s) = Some Error \<and>
      console (loadMovies_resume (Response st InvalidJson) s) = console s @ [SyntaxError]) \<and>
   (response_ok st \<and> spread data = Inl TypeError \<longrightarrow>
      view_of (loadMovies_resume (Response st (Json data)) s) = Some Error \<and>
      console (loadMovies_resume (Response st (Json data)) s) = console s @ [TypeError]) \<and>
   (response_ok st \<and> spread data = Inr xs \<and> Prim PNull \<in> set xs \<longrightarrow>
      view_of (loadMovies_resume (Response st (Json data)) s) = Some Error \<and>
      console (loadMovies_resume (Response st (Json data)) s) = console s @ [TypeError]) \<and>
   (response_ok st \<and> spread data = Inr xs \<and> Prim PNull \<notin> set xs \<longrightarrow>
      view_of (loadMovies_resume (Response st (Json data)) s) =
        Some (if xs = [] then Empty else Populated) \<and>
      console (loadMovies_resume (Response st (Json data)) s) = console s) \<and>
   view_of (snd (step toLowerCase RetryClick (loadMovies_resume r s))) = Some Loading"
proof -
  have net: "view_of (loadMovies_resume NetworkError s) = Some Error \<and>
      console (loadMovies_resume NetworkError s) = console s @ [TypeError]"
    by (simp add: resume_network view_of_showError)
  have status: "\<not> response_ok st \<Longrightarrow>
      view_of (loadMovies_resume (Response st body) s) = Some Error \<and>
      console (loadMovies_resume (Response st body) s) = console s @ [HttpError st]"
    by (simp add: resume_bad_status view_of_showError)
  have parse: "response_ok st \<Longrightarrow>
      view_of (loadMovies_resume (Response st InvalidJson) s) = Some Error \<and>
      console (loadMovies_resume (Response st InvalidJson) s) = console s @ [SyntaxError]"
    by (simp add: resume_invalid_json view_of_showError)
  have shape: "response_ok st \<Longrightarrow> spread data = Inl TypeError \<Longrightarrow>
      view_of (loadMovies_resume (Response st (Json data)) s) = Some Error \<and>
      console (loadMovies_resume (Response st (Json data)) s) = console s @ [TypeError]"
    by (simp add: resume_not_iterable view_of_showError)
  have null: "response_ok st \<Longrightarrow> spread data = Inr xs \<Longrightarrow> Prim PNull \<in> set xs \<Longrightarrow>
      view_of (loadMovies_resume (Response st (Json data)) s) = Some Error \<and>
      console (loadMovies_resume (Response st (Json data)) s) = console s @ [TypeError]"
    using resume_spread_fields [of st data xs s] by auto
  have items: "response_ok st \<Longrightarrow> spread data = Inr xs \<Longrightarrow> Prim PNull \<notin> set xs \<Longrightarrow>
      view_of (loadMovies_resume (Response st (Json data)) s) =
        Some (if xs = [] then Empty else Populated) \<and>
      console (loadMovies_resume (Response st (Json data)) s) = console s"
    using resume_spread_fields [of st data xs s] by auto
  have retry: "view_of (snd (step toLowerCase RetryClick (loadMovies_resume r s))) = Some Loading"
    by (simp add: loadMovies_begin_def view_of_showLoading)
  from net status parse shape null items retry show ?thesis by blast
qed

theorem load_failures_reach_error_witness:
  "view_of (loadMovies_resume (Response 404 InvalidJson) (startup blank_page)) = Some Error \<and>
   console (loadMovies_resume (Response 404 InvalidJson) (startup blank_page)) = [HttpError 404] \<and>
   view_of (loadMovies_resume (Response 200 InvalidJson) (startup blank_page)) = Some Error \<and>
   console (loadMovies_resume (Response 200 InvalidJson) (startup blank_page)) = [SyntaxError] \<and>
   view_of (loadMovies_resume (Response 200 (Json (Single (Object no_fields)))) (startup blank_page)) =
     Some Error \<and>
   console (loadMovies_resume (Response 200 (Json (Single (Object no_fields)))) (startup blank_page)) =
     [TypeError] \<and>
   view_of (loadMovies_resume (Response 200 (Json (Array [Prim PNull]))) (startup blank_page)) =
     Some Error \<and>
   console (loadMovies_resume (Response 200 (Json (Array [Prim PNull]))) (startup blank_page)) =
     [TypeError] \<and>
   view_of (loadMovies_resume (Response 200 (Json (Array [Object no_fields]))) (startup blank_page)) =
     Some Populated"
proof -
  note c0 = console_startup
  have bad: "\<not> response_ok 404" by (simp add: response_ok_def)
  from load_failures_reach_error [of "startup blank_page" 404 InvalidJson "Array []" "[]"
      toLowerCase_excerpt NetworkError] bad c0
  have a: "view_of (loadMovies_resume (Response 404 InvalidJson) (startup blank_page)) = Some Error \<and>
   console (loadMovies_resume (Response 404 InvalidJson) (startup blank_page)) = [HttpError 404]"
    by simp
  from load_failures_reach_error [of "startup blank_page" 200 InvalidJson "Single (Object no_fields)"
      "[]" toLowerCase_excerpt NetworkError] response_ok_200 c0
  have b: "view_of (loadMovies_resume (Response 200 InvalidJson) (startup blank_page)) = Some Error \<and>
   console (loadMovies_resume (Response 200 InvalidJson) (startup blank_page)) = [SyntaxError] \<and>
   view_of (loadMovies_resume (Response 200 (Json (Single (Object no_fields)))) (startup blank_page)) =
     Some Error \<and>
   console (loadMovies_resume (Response 200 (Json (Single (Object no_fields)))) (startup blank_page)) =
     [TypeError]"
    by simp
  from load_failures_reach_error [of "startup blank_page" 200 InvalidJson "Array [Prim PNull]"
      "[Prim PNull]" toLowerCase_excerpt NetworkError] response_ok_200 c0
  have c: "view_of (loadMovies_resume (Response 200 (Json (Array [Prim PNull]))) (startup blank_page)) =
     Some Error \<and>
   console (loadMovies_resume (Response 200 (Json (Array [Prim PNull]))) (startup blank_page)) =
     [TypeError]"
    by simp
  from load_failures_reach_error [of "startup blank_page" 200 InvalidJson "Array [Object no_fields]"
      "[Object no_fields]" toLowerCase_excerpt NetworkError] response_ok_200 c0
  have d: "view_of (loadMovies_resume (Response 200 (Json (Array [Object no_fields]))) (startup blank_page)) =
     Some Populated"
    by simp
  from a b c d show ?thesis by simp
qed

text \<open>
  Claim C5 says that the result of an earlier load, arriving after the result of a later
  one, does not overwrite what the later one established. It does: a second load is
  started while the first is pending; the second delivers one movie and the page shows
  it; then the first delivers an empty array, and collection, filtered view and view
  state are those of the first.
\<close>

theorem stale_load_counterexample:
  "movies (snd (run toLowerCase_excerpt
             [RetryClick, FetchSettled (Response 200 (Json (Array [Object the_dark_knight])))]
             (startup blank_page))) = Array [Object the_dark_knight] \<and>
   view_of (snd (run toLowerCase_excerpt
             [RetryClick, FetchSettled (Response 200 (Json (Array [Object the_dark_knight])))]
             (startup blank_page))) = Some Populated \<and>
   movies (snd (run toLowerCase_excerpt
             [RetryClick, FetchSettled (Response 200 (Json (Array [Object the_dark_knight]))),
              FetchSettled (Response 200 (Json (Array [])))]
             (startup blank_page))) = Array [] \<and>
   filteredMovies (snd (run toLowerCase_excerpt
             [RetryClick, FetchSettled (Response 200 (Json (Array [Object the_dark_knight]))),
              FetchSettled (Response 200 (Json (Array [])))]
             (startup blank_page))) = [] \<and>
   view_of (snd (run toLowerCase_excerpt
             [RetryClick, FetchSettled (Response 200 (Json (Array [Object the_dark_knight]))),
              FetchSettled (Response 200 (Json (Array [])))]
             (startup blank_page))) = Some Empty"
proof -
  note f = resume_array_fields [OF response_ok_200]
  show ?thesis by (simp add: f)
qed

lemma view_of_resume_any:
  "view_of (loadMovies_resume r s) = view_of (loadMovies_resume r t)"
proof (cases r)
  case NetworkError
  then show ?thesis by (simp add: resume_network view_of_showError)
next
  case (Response st b)
  show ?thesis
  proof (cases "response_ok st")
    case False
    with Response show ?thesis by (simp add: resume_bad_status view_of_showError)
  next
    case True
    show ?thesis
    proof (cases b)
      case InvalidJson
      with Response True show ?thesis by (simp add: resume_invalid_json view_of_showError)
    next
      case (Json data)
      from spread_cases [of data] show ?thesis
      proof
        assume "\<exists>xs. spread data = Inr xs"
        then obtain xs where "spread data = Inr xs" by blast
        with Response True Json show ?thesis
          by (simp add: resume_spread_fields(1))
      next
        assume "spread data = Inl TypeError"
        with Response True Json show ?thesis
          by (simp add: resume_not_iterable view_of_showError)
      qed
    qed
  qed
qed

text \<open>
  Claim C5, amended. When a load is started while another is pending, both results are
  applied in the order they arrive: the view state after the later arrival is the one
  that result gives on its own, and when it is a successful load the collection and the
  filtered view are its items, whichever attempt it belongs to.
\<close>

theorem last_settled_load_wins:
  "view_of (snd (run toLowerCase [RetryClick, FetchSettled newer, FetchSettled older] s)) =
     view_of (loadMovies_resume older s) \<and>
   (response_ok st \<longrightarrow>
      movies (snd (run toLowerCase
                [RetryClick, FetchSettled newer, FetchSettled (Response st (Json (Array xs)))] s)) =
        Array xs \<and>
      filteredMovies
        (snd (run toLowerCase
                [RetryClick, FetchSettled newer, FetchSettled (Response st (Json (Array xs)))] s)) = xs)"
proof -
  have v: "view_of (snd (run toLowerCase [RetryClick, FetchSettled newer, FetchSettled older] s)) =
     view_of (loadMovies_resume older s)"
  proof -
    have "snd (run toLowerCase [RetryClick, FetchSettled newer, FetchSettled older] s) =
        loadMovies_resume older (loadMovies_resume newer (loadMovies_begin s))"
      by simp
    with view_of_resume_any [of older "loadMovies_resume newer (loadMovies_begin s)" s]
    show ?thesis by simp
  qed
  have m: "response_ok st \<Longrightarrow>
      movies (snd (run toLowerCase
                [RetryClick, FetchSettled newer, FetchSettled (Response st (Json (Array xs)))] s)) =
        Array xs \<and>
      filteredMovies
        (snd (run toLowerCase
                [RetryClick, FetchSettled newer, FetchSettled (Response st (Json (Array xs)))] s)) = xs"
    by (simp add: resume_array_fields)
  from v m show ?thesis by blast
qed

theorem last_settled_load_wins_witness:
  "view_of (snd (run toLowerCase_excerpt
                 [RetryClick, FetchSettled (Response 200 (Json (Array [Object the_dark_knight]))),
                  FetchSettled (Response 200 (Json (Array [])))] (startup blank_page))) = Some Empty \<and>
   movies (snd (run toLowerCase_excerpt
                 [RetryClick, FetchSettled (Response 200 (Json (Array [Object the_dark_knight]))),
                  FetchSettled (Response 200 (Json (Array [])))] (startup blank_page))) = Array []"
  using last_settled_load_wins [of toLowerCase_excerpt
      "Response 200 (Json (Array [Object the_dark_knight]))"
      "Response 200 (Json (Array []))" "startup blank_page" 200 "[]"] response_ok_200
  by (simp add: resume_array_fields)

subsection \<open>The overlay and the scroll lock\<close>

lemma closeModal_twice: "closeModal (closeModal s) = closeModal s"
  by (simp add: closeModal_def)

lemma closeModal_closed:
  "movieModal_display s = ''none'' \<Longrightarrow> body_overflow s = ''auto'' \<Longrightarrow> closeModal s = s"
  by (cases s) (simp add: closeModal_def)

text \<open>
  Claim C8. \<^verbatim>\<open>closeModal\<close> never fails; after it the overlay is closed, whatever item
  it showed, and the body scrolls again. A second call changes nothing (the state after
  two calls is the state after one), and on an overlay that is already closed and
  unlocked the call leaves the state as it is.
\<close>

theorem closeModal_idempotent:
  "closeModal (closeModal s) = closeModal s \<and>
   \<not> isModalOpen (closeModal s) \<and>
   body_overflow (closeModal s) = ''auto'' \<and>
   \<not> isModalOpen (closeModal (openModal m s)) \<and>
   (movieModal_display s = ''none'' \<and> body_overflow s = ''auto'' \<longrightarrow> closeModal s = s)"
proof -
  have closed: "\<not> isModalOpen (closeModal t)" for t
    by (simp add: isModalOpen_def closeModal_def)
  have unlocked: "body_overflow (closeModal s) = ''auto''"
    by (simp add: closeModal_def)
  from closed unlocked closeModal_twice closeModal_closed show ?thesis
    by blast
qed

theorem closeModal_idempotent_witness:
  "isModalOpen (openModal inception (startup blank_page)) \<and>
   body_overflow (openModal inception (startup blank_page)) = ''hidden'' \<and>
   \<not> isModalOpen (closeModal (openModal inception (startup blank_page))) \<and>
   closeModal (closeModal (openModal inception (startup blank_page))) =
     closeModal (openModal inception (startup blank_page))"
proof -
  let ?closed = "closeModal (openModal inception (startup blank_page))"
  have d: "movieModal_display ?closed = ''none''" and o: "body_overflow ?closed = ''auto''"
    by (simp_all add: closeModal_def)
  from closeModal_idempotent [of ?closed inception] d o
  have "closeModal ?closed = ?closed" by blast
  moreover have "\<not> isModalOpen ?closed"
    using closeModal_idempotent [of "openModal inception (startup blank_page)" inception] by blast
  moreover have "isModalOpen (openModal inception (startup blank_page))"
    "body_overflow (openModal inception (startup blank_page)) = ''hidden''"
    by (simp_all add: isModalOpen_def openModal_def setTimeout_def Let_def)
  ultimately show ?thesis by simp
qed

text \<open>
  Claim C9 says that the overlay shows the rating formatted to one decimal place. It
  does not: for an item rated 8 the overlay shows the text 8, which has no decimal
  place, where the format asks for 8.0.
\<close>

theorem rating_unformatted_counterexample:
  "rating whole_rated = Some (PNum (Num (ascii ''8''))) \<and>
   modalRating_text (openModal whole_rated (startup blank_page)) = ascii ''8'' \<and>
   \<not> one_decimal_format (ascii ''8'') \<and>
   one_decimal_format (ascii ''8.0'')"
proof -
  have r: "rating whole_rated = Some (PNum (Num (ascii ''8'')))"
    by (simp add: whole_rated_def)
  have shown: "modalRating_text (openModal whole_rated (startup blank_page)) = ascii ''8''"
    by (simp add: openModal_def setTimeout_def Let_def r)
  have no: "\<not> one_decimal_format (ascii ''8'')"
    by (simp add: one_decimal_format_def ascii_def)
  have yes: "one_decimal_format (ascii ''8.0'')"
    by (simp add: one_decimal_format_def ascii_def is_digit_def)
  from r shown no yes show ?thesis by simp
qed

lemma to_USVString_scalar:
  "\<forall>c \<in> set p. \<not> high_surrogate c \<and> \<not> low_surrogate c \<Longrightarrow> to_USVString p = p"
  by (induction p rule: to_USVString.induct) simp_all

text \<open>
  Claim C9, amended. For an item with its fields present, \<^verbatim>\<open>openModal\<close> writes title,
  genre and description as they are, the poster as they are too up to unpaired
  surrogates (the URL attribute replaces them), the alternative text of the poster as
  the title followed by the word Poster, and year and rating as the plain text of the
  number. The rating is not formatted: the text shown has the one-decimal format
  exactly when the plain text of the number has it.
\<close>

theorem openModal_populates_verbatim:
  assumes "poster m = Some (PStr p)" and "title m = Some (PStr t)" and "year m = Some (PNum y)"
    and "rating m = Some (PNum r)" and "genre m = Some (PStr g)"
    and "description m = Some (PStr d)"
  shows "modalPoster_src (openModal m s) = to_USVString p \<and>
         ((\<forall>c \<in> set p. \<not> high_surrogate c \<and> \<not> low_surrogate c) \<longrightarrow>
            modalPoster_src (openModal m s) = p) \<and>
         modalPoster_alt (openModal m s) = t @ ascii '' Poster'' \<and>
         modalTitle_text (openModal m s) = t \<and>
         modalYear_text (openModal m s) = num_text y \<and>
         modalRating_text (openModal m s) = num_text r \<and>
         modalGenre_text (openModal m s) = g \<and>
         modalDescription_text (openModal m s) = d \<and>
         (one_decimal_format (modalRating_text (openModal m s)) \<longleftrightarrow>
            one_decimal_format (num_text r))"
proof -
  have fields: "modalPoster_src (openModal m s) = to_USVString p"
    "modalPoster_alt (openModal m s) = t @ ascii '' Poster''"
    "modalTitle_text (openModal m s) = t"
    "modalYear_text (openModal m s) = num_text y"
    "modalRating_text (openModal m s) = num_text r"
    "modalGenre_text (openModal m s) = g"
    "modalDescription_text (openModal m s) = d"
    using assms
    by (simp_all add: openModal_def setTimeout_def Let_def)
  then show ?thesis
    by (simp add: to_USVString_scalar)
qed

theorem openModal_populates_verbatim_witness:
  "modalTitle_text (openModal inception (startup blank_page)) = ascii ''Inception'' \<and>
   modalYear_text (openModal inception (startup blank_page)) = ascii ''2010'' \<and>
   modalRating_text (openModal inception (startup blank_page)) = ascii ''8.8'' \<and>
   one_decimal_format (modalRating_text (openModal inception (startup blank_page))) \<and>
   modalPoster_src (openModal inception (startup blank_page)) = ascii ''inception.jpg'' \<and>
   modalPoster_alt (openModal inception (startup blank_page)) = ascii ''Inception Poster''"
proof -
  have f: "poster inception = Some (PStr (ascii ''inception.jpg''))"
    "title inception = Some (PStr (ascii ''Inception''))"
    "year inception = Some (PNum (Num (ascii ''2010'')))"
    "rating inception = Some (PNum (Num (ascii ''8.8'')))"
    "genre inception = Some (PStr (ascii ''Action, Sci-Fi''))"
    "description inception = Some (PStr (ascii ''A thief enters dreams.''))"
    by (simp_all add: inception_def)
  have fmt: "one_decimal_format (ascii ''8.8'')"
    by (simp add: one_decimal_format_def ascii_def is_digit_def)
  have plain: "\<forall>c \<in> set (ascii ''inception.jpg''). \<not> high_surrogate c \<and> \<not> low_surrogate c"
    by (simp add: ascii_def high_surrogate_def low_surrogate_def)
  have alt: "ascii ''Inception'' @ ascii '' Poster'' = ascii ''Inception Poster''"
    by (simp add: ascii_def)
  note shown = openModal_populates_verbatim [OF f, of "startup blank_page"]
  from shown plain
  have src: "modalPoster_src (openModal inception (startup blank_page)) = ascii ''inception.jpg''"
    by blast
  from shown have rest:
    "modalPoster_alt (openModal inception (startup blank_page)) = ascii ''Inception'' @ ascii '' Poster''"
    "modalTitle_text (openModal inception (startup blank_page)) = ascii ''Inception''"
    "modalYear_text (openModal inception (startup blank_page)) = ascii ''2010''"
    "modalRating_text (openModal inception (startup blank_page)) = ascii ''8.8''"
    by simp_all
  from src rest fmt alt show ?thesis
    by simp
qed

lemma lock_after_open: "body_overflow (openModal m s) = ''hidden'' \<and> isModalOpen (openModal m s)"
  by (simp add: openModal_def setTimeout_def Let_def isModalOpen_def)

lemma lock_after_close: "body_overflow (closeModal s) = ''auto'' \<and> \<not> isModalOpen (closeModal s)"
  by (simp add: closeModal_def isModalOpen_def)

lemma lock_kept:
  "(body_overflow s = ''hidden'' \<longleftrightarrow> isModalOpen s) \<Longrightarrow>
   (body_overflow (modal_calls cs s) = ''hidden'' \<longleftrightarrow> isModalOpen (modal_calls cs s))"
proof (induction cs arbitrary: s)
  case Nil
  then show ?case by simp
next
  case (Cons c cs)
  show ?case
  proof (cases c)
    case (Open m)
    have "body_overflow (openModal m s) = ''hidden'' \<longleftrightarrow> isModalOpen (openModal m s)"
      using lock_after_open [of m s] by simp
    then show ?thesis using Open Cons.IH by simp
  next
    case Close
    have "body_overflow (closeModal s) = ''hidden'' \<longleftrightarrow> isModalOpen (closeModal s)"
      using lock_after_close [of s] by simp
    then show ?thesis using Close Cons.IH by simp
  qed
qed

text \<open>
  Claim C10. After one or more calls of \<^verbatim>\<open>openModal\<close> and \<^verbatim>\<open>closeModal\<close>, from any
  state, the body overflow is \<^verbatim>\<open>hidden\<close> exactly when the overlay is open; started in
  a state where this holds, no sequence of calls breaks it. \<^verbatim>\<open>closeModal\<close> always
  writes the value \<^verbatim>\<open>auto\<close>, not the value the body had before the overlay opened.
\<close>

theorem scroll_locked_iff_open:
  assumes "cs \<noteq> [] \<or> (body_overflow s = ''hidden'' \<longleftrightarrow> isModalOpen s)"
  shows "(body_overflow (modal_calls cs s) = ''hidden'' \<longleftrightarrow> isModalOpen (modal_calls cs s)) \<and>
         body_overflow (closeModal s) = ''auto'' \<and>
         body_overflow (closeModal (openModal m s)) = ''auto''"
proof -
  have inv: "body_overflow (modal_calls cs s) = ''hidden'' \<longleftrightarrow> isModalOpen (modal_calls cs s)"
  proof (cases cs)
    case Nil
    with assms show ?thesis by simp
  next
    case (Cons c rest)
    show ?thesis
    proof (cases c)
      case (Open m')
      have "body_overflow (openModal m' s) = ''hidden'' \<longleftrightarrow> isModalOpen (openModal m' s)"
        using lock_after_open [of m' s] by simp
      then show ?thesis using Cons Open lock_kept [of "openModal m' s" rest] by simp
    next
      case Close
      have "body_overflow (closeModal s) = ''hidden'' \<longleftrightarrow> isModalOpen (closeModal s)"
        using lock_after_close [of s] by simp
      then show ?thesis using Cons Close lock_kept [of "closeModal s" rest] by simp
    qed
  qed
  then show ?thesis by (simp add: closeModal_def)
qed

theorem scroll_locked_iff_open_witness:
  "body_overflow (blank_page\<lparr>body_overflow := ''scroll''\<rparr>) = ''scroll'' \<and>
   isModalOpen (modal_calls [Open inception] (blank_page\<lparr>body_overflow := ''scroll''\<rparr>)) \<and>
   body_overflow (modal_calls [Open inception] (blank_page\<lparr>body_overflow := ''scroll''\<rparr>)) = ''hidden'' \<and>
   \<not> isModalOpen (modal_calls [Open inception, Close] (blank_page\<lparr>body_overflow := ''scroll''\<rparr>)) \<and>
   body_overflow (modal_calls [Open inception, Close] (blank_page\<lparr>body_overflow := ''scroll''\<rparr>)) = ''auto''"
proof -
  let ?s = "blank_page\<lparr>body_overflow := ''scroll''\<rparr>"
  have a: "isModalOpen (modal_calls [Open inception] ?s)"
    by (simp add: openModal_def setTimeout_def Let_def isModalOpen_def)
  have b: "\<not> isModalOpen (modal_calls [Open inception, Close] ?s)"
    by (simp add: closeModal_def isModalOpen_def)
  from scroll_locked_iff_open [of "[Open inception]" ?s inception] a
  have c: "body_overflow (modal_calls [Open inception] ?s) = ''hidden''" by simp
  from scroll_locked_iff_open [of "[Open inception, Close]" ?s inception]
  have d: "body_overflow (modal_calls [Open inception, Close] ?s) = ''auto''" by simp
  from a b c d show ?thesis by simp
qed

subsection \<open>The debounced search\<close>




























end
